theory Spec2Isabelle
  imports Complex_Main "HOL-Library.Sublist"
begin

section \<open>SketchCanvas: command capture and staggered replay\<close>

subsection \<open>Step code and the instrumented primitives\<close>

text \<open>
  A JavaScript value passed to a drawing primitive. Numbers are exact rationals (the
  only arithmetic of the component on them is \<open>width/2\<close>, \<open>height/2\<close>).
\<close>

datatype arg = Num rat | Str string | Flag bool | Opts "(string \<times> arg) list" | Undefined

text \<open>
  One invocation of an instrumented primitive with its arguments: a method of the
  proxied \<open>rc\<close> (named by its property), \<open>drawArrow\<close>, \<open>drawCurve\<close> or \<open>drawText\<close>.
  A DrawCommand is the closure \<open>addToQueue\<close> receives; the closure holds nothing but
  the primitive and the arguments of the invocation, so it is represented by them.
\<close>

datatype DrawCommand =
    Rc string "arg list"
  | DrawArrow "arg list"
  | DrawCurve "arg list"
  | DrawText "arg list"

text \<open>
  The step code is the text of an arbitrary JavaScript function body. \<open>runAnimation\<close>
  observes of it only this: \<open>new Function\<close> either rejects the text (a syntax error) or
  yields a function whose call makes a finite sequence of calls on its parameters and
  then returns or throws. A \<open>program\<close> is that behaviour: \<open>Call\<close> is a call of an
  instrumented primitive, \<open>Ctx\<close> a call of a method of the raw 2D context \<open>ctx\<close> (which
  the code receives unproxied, so it paints at once), \<open>Raise\<close> a runtime error thrown by
  the code.
\<close>

datatype stmt = Call DrawCommand | Ctx string | Raise

datatype program = Unparsable | Script "stmt list"

text \<open>
  What the component needs to know of the JavaScript engine, of rough.js and of the 2D
  context, none of which belongs to the repository: the behaviour of a code text
  (\<open>new Function\<close> and the call of its result), which properties of the rough canvas
  are functions (the test \<open>typeof target[prop] === 'function'\<close> of the proxy), and which
  deferred draws raise when they are finally run.
\<close>

record renderer =
  compile :: "string \<Rightarrow> program"
  is_function :: "string \<Rightarrow> bool"
  throws :: "DrawCommand \<Rightarrow> bool"

text \<open>What is on the canvas over its white background, oldest first.\<close>

datatype paint = Drawn DrawCommand | Immediate string

datatype outcome = Completed | Thrown

definition addToQueue :: "DrawCommand \<Rightarrow> DrawCommand list \<Rightarrow> DrawCommand list" where
  "addToQueue fn commandQueue = commandQueue @ [fn]"

text \<open>
  The \<open>get\<close> trap of \<open>rcProxy\<close>: a property that is a function is replaced by a wrapper
  that enqueues; any other property is returned as it is, and the call the step code
  makes on it is a TypeError. The three helpers always enqueue.
\<close>

fun callable :: "renderer \<Rightarrow> DrawCommand \<Rightarrow> bool" where
  "callable lib (Rc prop args) = is_function lib prop"
| "callable lib (DrawArrow args) = True"
| "callable lib (DrawCurve args) = True"
| "callable lib (DrawText args) = True"

text \<open>
  \<open>drawFunction(rcProxy, ctx, width, height, drawArrow, drawCurve, drawText)\<close>: the run
  of the compiled step code over the command queue and the canvas. On a throw the queue
  keeps what was enqueued before.
\<close>

fun drawFunction ::
  "renderer \<Rightarrow> stmt list \<Rightarrow> DrawCommand list \<Rightarrow> paint list
    \<Rightarrow> outcome \<times> DrawCommand list \<times> paint list" where
  "drawFunction lib [] q cv = (Completed, q, cv)"
| "drawFunction lib (Raise # rest) q cv = (Thrown, q, cv)"
| "drawFunction lib (Ctx m # rest) q cv = drawFunction lib rest q (cv @ [Immediate m])"
| "drawFunction lib (Call c # rest) q cv =
     (if callable lib c then drawFunction lib rest (addToQueue c q) cv
      else (Thrown, q, cv))"

text \<open>
  Lines 141-142 of the component: compile the code, then run it on an empty queue.
\<close>

definition capture ::
  "renderer \<Rightarrow> string \<Rightarrow> paint list \<Rightarrow> outcome \<times> DrawCommand list \<times> paint list" where
  "capture lib text cv =
     (case compile lib text of
        Unparsable \<Rightarrow> (Thrown, [], cv)
      | Script body \<Rightarrow> drawFunction lib body [] cv)"

text \<open>
  The primitive invocations a step code makes, in order: those before its first runtime
  error, if it has one.
\<close>

fun invocations :: "stmt list \<Rightarrow> DrawCommand list" where
  "invocations [] = []"
| "invocations (Call c # rest) = c # invocations rest"
| "invocations (Ctx m # rest) = invocations rest"
| "invocations (Raise # rest) = []"

subsection \<open>The component state, timers and animation frames\<close>

record timer =
  tid :: nat
  due :: nat
  job :: "nat \<times> DrawCommand"

text \<open>
  The props (\<open>code\<close>, \<open>width\<close>, \<open>height\<close>), the refs and state of the component, and the
  part of the browser it talks to: the pending timeouts (kept in the order in which they
  fire: by due time, then by creation), the pending \<open>requestAnimationFrame\<close> callbacks,
  the console and a clock in milliseconds. \<open>surface\<close> says that \<open>canvasRef.current\<close> and
  its 2D context exist. \<open>executed\<close> is a history variable: every queued command whose
  closure has been called, whether it raised or not.
\<close>

record sketch_canvas =
  code :: string
  width :: nat
  height :: nat
  surface :: bool
  picture :: "paint list"
  error :: "string option"
  timeoutsRef :: "nat list"
  timers :: "timer list"
  frames :: "(nat \<times> DrawCommand) list"
  console :: "string list"
  clock :: nat
  next_timer :: nat
  executed :: "DrawCommand list"

definition STAGGER_DELAY :: nat where
  "STAGGER_DELAY = 200"

fun insert_timer :: "timer \<Rightarrow> timer list \<Rightarrow> timer list" where
  "insert_timer t [] = [t]"
| "insert_timer t (u # us) =
     (if due u \<le> due t then u # insert_timer t us else t # u # us)"

definition setTimeout ::
  "nat \<times> DrawCommand \<Rightarrow> nat \<Rightarrow> sketch_canvas \<Rightarrow> nat \<times> sketch_canvas" where
  "setTimeout task delay s =
     (next_timer s,
      s\<lparr>timers := insert_timer \<lparr>tid = next_timer s, due = clock s + delay, job = task\<rparr> (timers s),
        next_timer := Suc (next_timer s)\<rparr>)"

definition clearTimeout :: "nat \<Rightarrow> sketch_canvas \<Rightarrow> sketch_canvas" where
  "clearTimeout i s = s\<lparr>timers := filter (\<lambda>t. tid t \<noteq> i) (timers s)\<rparr>"

text \<open>
  The \<open>commandQueue.forEach\<close> of lines 147-159: one timeout per command, at
  \<open>index * STAGGER_DELAY\<close>, its id pushed on \<open>timeoutsRef.current\<close>.
\<close>

fun schedule :: "(nat \<times> DrawCommand) list \<Rightarrow> sketch_canvas \<Rightarrow> sketch_canvas" where
  "schedule [] s = s"
| "schedule ((index, command) # rest) s =
     (case setTimeout (index, command) (index * STAGGER_DELAY) s of
        (i, s') \<Rightarrow> schedule rest (s'\<lparr>timeoutsRef := timeoutsRef s' @ [i]\<rparr>))"

definition clearTimeouts :: "sketch_canvas \<Rightarrow> sketch_canvas" where
  "clearTimeouts s = fold clearTimeout (timeoutsRef s) s"

definition fallback :: "sketch_canvas \<Rightarrow> DrawCommand" where
  "fallback s =
     DrawText [Str ''Oops! Drawing Error.'', Num (of_nat (width s) / 2), Num (of_nat (height s) / 2),
               Opts [(''color'', Str ''#ef4444''), (''size'', Num 40)]]"

text \<open>
  \<open>runAnimation\<close>. The result pairs the local \<open>commandQueue\<close> as it stands when the
  function returns (the source drops it there) with the new state. In the \<open>catch\<close> branch
  \<open>drawText\<close> is the instrumented helper: it enqueues, and the loop that sets the timeouts
  lies in the \<open>try\<close> block that was left.
\<close>

definition runAnimation :: "renderer \<Rightarrow> sketch_canvas \<Rightarrow> DrawCommand list \<times> sketch_canvas" where
  "runAnimation lib s =
     (if \<not> surface s then ([], s)
      else
        let s1 = s\<lparr>picture := []\<rparr>;
            s2 = (clearTimeouts s1)\<lparr>timeoutsRef := []\<rparr>;
            s3 = s2\<lparr>error := None\<rparr>
        in case capture lib (code s3) (picture s3) of
             (Completed, commandQueue, cv) \<Rightarrow>
               (commandQueue, schedule (enumerate 0 commandQueue) (s3\<lparr>picture := cv\<rparr>))
           | (Thrown, commandQueue, cv) \<Rightarrow>
               (addToQueue (fallback s3) commandQueue,
                s3\<lparr>picture := cv,
                   console := console s3 @ [''Failed to execute sketch code:''],
                   error := Some ''Could not draw this step.''\<rparr>))"

text \<open>
  The body of the animation frame callback of lines 149-155: the command runs inside its
  own \<open>try\<close>; a command that raises is logged and leaves the canvas as it was.
\<close>

definition run_command :: "renderer \<Rightarrow> nat \<times> DrawCommand \<Rightarrow> sketch_canvas \<Rightarrow> sketch_canvas" where
  "run_command lib task s =
     (if throws lib (snd task)
      then s\<lparr>executed := executed s @ [snd task],
             console := console s @ [''Error executing command at index'']\<rparr>
      else s\<lparr>executed := executed s @ [snd task],
             picture := picture s @ [Drawn (snd task)]\<rparr>)"

text \<open>
  What can happen to a mounted component. \<open>Timeout\<close>: the browser fires the pending
  timeout that is due first, whose callback requests an animation frame for its command.
  \<open>Frame\<close>: the browser paints, running the requested callbacks in the order of their
  requests. \<open>Replay\<close>: the parent calls the \<open>replay\<close> handle. \<open>Props\<close>: a render with new
  \<open>code\<close>, \<open>width\<close> or \<open>height\<close>, on which React runs the cleanup of the effect and the
  effect again. \<open>Unmount\<close>: the cleanup alone; the canvas element is gone afterwards.
\<close>

datatype event = Timeout | Frame | Replay | Props string nat nat | Unmount

fun fire :: "renderer \<Rightarrow> event \<Rightarrow> sketch_canvas \<Rightarrow> sketch_canvas" where
  "fire lib Timeout s =
     (case timers s of
        [] \<Rightarrow> s
      | t # ts \<Rightarrow> s\<lparr>timers := ts, clock := max (clock s) (due t), frames := frames s @ [job t]\<rparr>)"
| "fire lib Frame s = fold (run_command lib) (frames s) (s\<lparr>frames := []\<rparr>)"
| "fire lib Replay s = snd (runAnimation lib s)"
| "fire lib (Props c w h) s =
     (if c = code s \<and> w = width s \<and> h = height s then s
      else snd (runAnimation lib ((clearTimeouts s)\<lparr>code := c, width := w, height := h\<rparr>)))"
| "fire lib Unmount s = (clearTimeouts s)\<lparr>surface := False\<rparr>"

definition run :: "renderer \<Rightarrow> event list \<Rightarrow> sketch_canvas \<Rightarrow> sketch_canvas" where
  "run lib evs s = fold (fire lib) evs s"

text \<open>The first render of the component with the given props: the effect runs once.\<close>

definition rendered :: "string \<Rightarrow> nat \<Rightarrow> nat \<Rightarrow> sketch_canvas" where
  "rendered c w h =
     \<lparr>code = c, width = w, height = h, surface = True, picture = [], error = None,
      timeoutsRef = [], timers = [], frames = [], console = [], clock = 0,
      next_timer = 0, executed = []\<rparr>"

definition mount :: "renderer \<Rightarrow> string \<Rightarrow> nat \<Rightarrow> nat \<Rightarrow> sketch_canvas" where
  "mount lib c w h = snd (runAnimation lib (rendered c w h))"

text \<open>
  Every pending timeout of the component is one whose id \<open>timeoutsRef.current\<close> holds:
  the invariant that makes \<open>timeoutsRef.current.forEach(clearTimeout)\<close> clear them all.
\<close>

definition tracked :: "sketch_canvas \<Rightarrow> bool" where
  "tracked s = (tid ` set (timers s) \<subseteq> set (timeoutsRef s))"

text \<open>
  The commands that are on their way to the canvas, in the order in which they will run:
  those whose animation frame is requested, then those whose timeout is pending.
\<close>

definition pending :: "sketch_canvas \<Rightarrow> DrawCommand list" where
  "pending s = map snd (frames s) @ map (snd \<circ> job) (timers s)"

definition quiescent :: "sketch_canvas \<Rightarrow> bool" where
  "quiescent s = (timers s = [] \<and> frames s = [])"

text \<open>The events that are the browser's own: no replay, no new props, no unmount.\<close>

fun browser_event :: "event \<Rightarrow> bool" where
  "browser_event Timeout = True"
| "browser_event Frame = True"
| "browser_event Replay = False"
| "browser_event (Props c w h) = False"
| "browser_event Unmount = False"

definition painted :: "renderer \<Rightarrow> DrawCommand list \<Rightarrow> paint list" where
  "painted lib cs = map Drawn (filter (\<lambda>c. \<not> throws lib c) cs)"

subsection \<open>Sample values\<close>

text \<open>
  Four step codes: a picture whose second command raises when it is drawn, a code that
  fails at run time after its first call (\<open>missing\<close> is not defined), a one-shape
  picture, and a text that is no function body.
\<close>

definition box :: DrawCommand where
  "box = Rc ''rectangle'' [Num 100, Num 200, Num 150, Num 100]"

definition label :: DrawCommand where
  "label = DrawText [Str ''175'', Num 175, Num 250, Opts [(''size'', Num 24)]]"

definition bad_path :: DrawCommand where
  "bad_path = Rc ''path'' [Undefined]"

definition three_commands :: string where
  "three_commands =
     ''rc.rectangle(100, 200, 150, 100); rc.path(undefined); drawText(String(175), 175, 250, { size: 24 });''"

definition failing_code :: string where
  "failing_code =
     ''rc.rectangle(100, 200, 150, 100); missing(); drawText(String(175), 175, 250, { size: 24 });''"

definition one_circle :: string where
  "one_circle = ''rc.circle(400, 300, 80);''"

definition cut_short :: string where
  "cut_short = ''rc.rectangle(100, 200, 150, 100''"

text \<open>
  A renderer that knows the first three texts (every other text is taken not to parse), has
  the drawing methods of the rough canvas, and raises on a path without path data.
\<close>

definition sample_lib :: renderer where
  "sample_lib =
     \<lparr>compile = (\<lambda>text.
        if text = three_commands then Script [Call box, Call bad_path, Call label]
        else if text = failing_code then Script [Call box, Raise, Call label]
        else if text = one_circle then Script [Call (Rc ''circle'' [Num 400, Num 300, Num 80])]
        else Unparsable),
      is_function = (\<lambda>prop. prop \<in> set [''line'', ''rectangle'', ''ellipse'', ''circle'',
                          ''linearPath'', ''polygon'', ''arc'', ''curve'', ''path'', ''draw'']),
      throws = (\<lambda>c. c = Rc ''path'' [Undefined])\<rparr>"

section \<open>storageService: the query history\<close>





record SketchStep =
  title :: string
  description :: string
  step_code :: string



























section \<open>App: narration audio and video export\<close>

subsection \<open>Values\<close>

text \<open>A decoded audio buffer: its playing time in milliseconds and its samples.\<close>

record AudioBuffer =
  duration :: nat
  pcm :: string

text \<open>
  A thrown value, as far as the \<open>catch\<close> of \<open>ensureAudioLoaded\<close> inspects it:
  \<open>e?.status\<close>, \<open>e?.code\<close> and \<open>e?.message\<close>.
\<close>

record thrown =
  status :: "nat option"
  ecode :: "nat option"
  message :: "string option"

definition Error :: "string \<Rightarrow> thrown" where
  "Error m = \<lparr>status = None, ecode = None, message = Some m\<rparr>"

definition is_rate_limit :: "thrown \<Rightarrow> bool" where
  "is_rate_limit e =
     (status e = Some 429 \<or> ecode e = Some 429
      \<or> (case message e of Some m \<Rightarrow> sublist ''429'' m | None \<Rightarrow> False))"

text \<open>
  \<open>String.prototype.trim\<close> on the characters a \<open>char\<close> can hold: tab, line feed,
  vertical tab, form feed, carriage return, space and no-break space are white space.
\<close>

definition is_space :: "char \<Rightarrow> bool" where
  "is_space c = ((of_char c :: nat) \<in> set [9, 10, 11, 12, 13, 32, 160])"

definition trim :: "string \<Rightarrow> string" where
  "trim s = rev (dropWhile is_space (rev (dropWhile is_space s)))"

definition getAudioKey :: "SketchStep \<Rightarrow> string" where
  "getAudioKey step = trim (title step) @ ''|'' @ trim (description step)"

definition narration :: "SketchStep \<Rightarrow> string" where
  "narration step = title step @ ''. '' @ description step"

subsection \<open>State\<close>

text \<open>
  The \<open>useState\<close> values of one render. A handler or \<open>useCallback\<close> closure reads the
  values of the render that created it, whatever has been set since: the functions below
  take that render as their first argument \<open>r\<close> and write to the latest state, the
  \<open>view\<close> of the \<open>app\<close>.
\<close>

record view =
  steps :: "SketchStep list"
  currentStepIndex :: int
  quotaExceeded :: bool
  isSpeaking :: bool
  isLoadingAudio :: bool
  isExporting :: bool

text \<open>
  The promise of one synthesis in flight, with what its suspended \<open>async\<close> body holds:
  the index, the key and the text it sent.
\<close>

record promise =
  pid :: nat
  p_index :: int
  p_key :: string
  p_text :: string

text \<open>
  The refs of the component and two history variables: \<open>speech_calls\<close>, the texts of all
  calls of \<open>generateSpeech\<close> so far, and \<open>heard\<close>, the sources \<open>playAudioForStep\<close> has
  started on the speakers (step index and buffer).
\<close>

record app =
  view :: view
  currentStepRef :: int
  activeSourceRef :: "(int \<times> AudioBuffer) option"
  audioCacheRef :: "string \<rightharpoonup> AudioBuffer"
  audioLoadingPromisesRef :: "string \<rightharpoonup> promise"
  next_promise :: nat
  speech_calls :: "string list"
  heard :: "(int \<times> AudioBuffer) list"

definition setQuotaExceeded :: "bool \<Rightarrow> app \<Rightarrow> app" where
  "setQuotaExceeded b a = a\<lparr>view := (view a)\<lparr>quotaExceeded := b\<rparr>\<rparr>"

definition setIsSpeaking :: "bool \<Rightarrow> app \<Rightarrow> app" where
  "setIsSpeaking b a = a\<lparr>view := (view a)\<lparr>isSpeaking := b\<rparr>\<rparr>"


definition setIsExporting :: "bool \<Rightarrow> app \<Rightarrow> app" where
  "setIsExporting b a = a\<lparr>view := (view a)\<lparr>isExporting := b\<rparr>\<rparr>"

definition setCurrentStepIndex :: "int \<Rightarrow> app \<Rightarrow> app" where
  "setCurrentStepIndex i a = a\<lparr>view := (view a)\<lparr>currentStepIndex := i\<rparr>\<rparr>"


definition stopSpeaking :: "app \<Rightarrow> app" where
  "stopSpeaking a = setIsSpeaking False (a\<lparr>activeSourceRef := None\<rparr>)"

text \<open>\<open>steps[index]\<close>: \<open>undefined\<close> outside the array.\<close>

definition step_at :: "SketchStep list \<Rightarrow> int \<Rightarrow> SketchStep option" where
  "step_at xs index =
     (if 0 \<le> index \<and> index < int (length xs) then Some (xs ! nat index) else None)"

subsection \<open>The audio cache and loader\<close>

text \<open>
  \<open>generateSpeech\<close> of the Gemini service module, after its request has been answered:
  the answer of the model API is an error or a response that may hold inline audio data.
\<close>

definition generateSpeech :: "thrown + string option \<Rightarrow> thrown + string" where
  "generateSpeech reply =
     (case reply of
        Inl e \<Rightarrow> Inl e
      | Inr None \<Rightarrow> Inl (Error ''No audio data generated'')
      | Inr (Some base64Audio) \<Rightarrow>
          (if base64Audio = [] then Inl (Error ''No audio data generated'')
           else Inr base64Audio))"

text \<open>
  What a caller of \<open>ensureAudioLoaded\<close> holds when the call returns: a rejection, a
  buffer from the cache, or the synthesis in flight that will settle its promise.
\<close>

datatype loaded = Rejected thrown | Resolved AudioBuffer | Awaiting promise

text \<open>
  \<open>ensureAudioLoaded\<close> up to its return. In the third case the \<open>async\<close> body has run
  to its first \<open>await\<close>: \<open>generateSpeech(text)\<close> has been called, and the promise is stored
  under the key.
\<close>

definition ensureAudioLoaded :: "view \<Rightarrow> int \<Rightarrow> app \<Rightarrow> loaded \<times> app" where
  "ensureAudioLoaded r index a =
     (if quotaExceeded r then (Rejected (Error ''Quota exceeded''), a)
      else case step_at (steps r) index of
        None \<Rightarrow> (Rejected (Error ''Step not found''), a)
      | Some step \<Rightarrow>
          (let key = getAudioKey step in
           case audioCacheRef a key of
             Some buffer \<Rightarrow> (Resolved buffer, a)
           | None \<Rightarrow>
               (case audioLoadingPromisesRef a key of
                  Some p \<Rightarrow> (Awaiting p, a)
                | None \<Rightarrow>
                    (let p = \<lparr>pid = next_promise a, p_index = index, p_key = key,
                              p_text = narration step\<rparr>
                     in (Awaiting p,
                         a\<lparr>speech_calls := speech_calls a @ [narration step],
                           audioLoadingPromisesRef := (audioLoadingPromisesRef a)(key \<mapsto> p),
                           next_promise := Suc (next_promise a)\<rparr>)))))"

text \<open>
  The rest of the \<open>async\<close> body of promise \<open>p\<close>, run when the service has answered.
  \<open>decode\<close> stands for \<open>getAudioContext\<close>, \<open>base64ToBytes\<close> and \<open>pcmToAudioBuffer\<close> (the
  audio utilities are not part of the sources at hand), any of which may raise. The
  result is what the promise settles with.
\<close>

definition speech_settled ::
  "(string \<Rightarrow> thrown + AudioBuffer) \<Rightarrow> promise \<Rightarrow> thrown + string option \<Rightarrow> app
     \<Rightarrow> (thrown + AudioBuffer) \<times> app" where
  "speech_settled decode p reply a =
     (let result = (case generateSpeech reply of Inl e \<Rightarrow> Inl e | Inr b64 \<Rightarrow> decode b64);
          a1 = (case result of
                  Inr buffer \<Rightarrow> a\<lparr>audioCacheRef := (audioCacheRef a)(p_key p \<mapsto> buffer)\<rparr>
                | Inl e \<Rightarrow> if is_rate_limit e then setQuotaExceeded True a else a)
      in (result, a1\<lparr>audioLoadingPromisesRef := (audioLoadingPromisesRef a1)(p_key p := None)\<rparr>))"


subsection \<open>Playback\<close>




definition onPrev :: "view \<Rightarrow> app \<Rightarrow> app" where
  "onPrev r a =
     (if isExporting r then a
      else let a1 = stopSpeaking a
           in setCurrentStepIndex (max 0 (currentStepIndex (view a1) - 1)) a1)"

subsection \<open>Export\<close>

text \<open>
  \<open>await ensureAudioLoaded(i)\<close> where nothing else runs in between: the call, and for a
  synthesis in flight the answer \<open>service\<close> gives to its text.
\<close>

definition await_ensure ::
  "(string \<Rightarrow> thrown + AudioBuffer) \<Rightarrow> (string \<Rightarrow> thrown + string option) \<Rightarrow> view \<Rightarrow> int
     \<Rightarrow> app \<Rightarrow> (thrown + AudioBuffer) \<times> app" where
  "await_ensure decode service r index a =
     (case ensureAudioLoaded r index a of
        (Rejected e, a') \<Rightarrow> (Inl e, a')
      | (Resolved buffer, a') \<Rightarrow> (Inr buffer, a')
      | (Awaiting p, a') \<Rightarrow> speech_settled decode p (service (p_text p)) a')"

text \<open>
  One turn of the loop "1. Ensure ALL audio buffers are cached": a failed load is logged
  and the loop goes on.
\<close>

definition prepare_step ::
  "(string \<Rightarrow> thrown + AudioBuffer) \<Rightarrow> (string \<Rightarrow> thrown + string option) \<Rightarrow> view \<Rightarrow> nat
     \<Rightarrow> app \<Rightarrow> app" where
  "prepare_step decode service r i a =
     (if audioCacheRef a (getAudioKey (steps r ! i)) \<noteq> None then a
      else snd (await_ensure decode service r (int i) a))"

definition prepare_audio ::
  "(string \<Rightarrow> thrown + AudioBuffer) \<Rightarrow> (string \<Rightarrow> thrown + string option) \<Rightarrow> view
     \<Rightarrow> app \<Rightarrow> app" where
  "prepare_audio decode service r a =
     fold (prepare_step decode service r) [0..<length (steps r)] a"

text \<open>
  What happens during a recording, with its time in milliseconds. A timer or an
  \<open>onended\<close> handler runs no earlier than it is due; \<open>lateness\<close> says how much later each
  of them runs.
\<close>

datatype export_event =
    RecorderStart
  | Show nat
  | ReplayCanvas nat
  | SourceStart nat AudioBuffer
  | SourceEnded nat
  | RecorderStop

record lateness =
  settle_late :: "nat \<Rightarrow> nat"
  ended_late :: "nat \<Rightarrow> nat"
  pause_late :: "nat \<Rightarrow> nat"
  hold_late :: "nat \<Rightarrow> nat"
  stop_late :: nat

text \<open>
  \<open>playExportStep(index)\<close> called at time \<open>t\<close>, with all that follows from it: the
  100 ms before the replay, the source connected to the capture destination, the next
  step 1000 ms after the source has ended, or 5000 ms after the replay where the cache
  has no buffer, and the stop of the recorder 1000 ms after the last step.
\<close>

function playExportStep ::
  "view \<Rightarrow> (string \<rightharpoonup> AudioBuffer) \<Rightarrow> lateness \<Rightarrow> nat \<Rightarrow> nat \<Rightarrow> (nat \<times> export_event) list"
  where
  "playExportStep r cache late index t =
     (if index \<ge> length (steps r) then [(t + 1000 + stop_late late, RecorderStop)]
      else
        let t1 = t + 100 + settle_late late index
        in (t, Show index) # (t1, ReplayCanvas index) #
           (case cache (getAudioKey (steps r ! index)) of
              Some buffer \<Rightarrow>
                (let t2 = t1 + duration buffer + ended_late late index
                 in (t1, SourceStart index buffer) # (t2, SourceEnded index) #
                    playExportStep r cache late (index + 1) (t2 + 1000 + pause_late late index))
            | None \<Rightarrow>
                playExportStep r cache late (index + 1) (t1 + 5000 + hold_late late index)))"
  by pat_completeness auto
termination
  by (relation "measure (\<lambda>(r, cache, late, index, t). length (steps r) - index)") auto

declare playExportStep.simps [simp del]

text \<open>
  What the export needs besides the audio: the audio graph (\<open>getAudioContext\<close>,
  \<open>createMediaStreamDestination\<close>), the canvas element and a \<open>MediaRecorder\<close> for the
  combined stream. A missing one raises into the \<open>catch\<close> of \<open>handleExportVideo\<close>.
\<close>

record export_env =
  audio_graph :: bool
  canvas_found :: bool
  recorder_supported :: bool
  delays :: lateness

text \<open>
  \<open>handleExportVideo\<close> called at time \<open>t\<close> by the handler of render \<open>r\<close>: the state when
  its body has run, and the timeline of the recording it has started (empty when it has
  started none). The progress texts are left out.
\<close>

definition handleExportVideo ::
  "(string \<Rightarrow> thrown + AudioBuffer) \<Rightarrow> (string \<Rightarrow> thrown + string option) \<Rightarrow> export_env
     \<Rightarrow> view \<Rightarrow> nat \<Rightarrow> app \<Rightarrow> (nat \<times> export_event) list \<times> app" where
  "handleExportVideo decode service env r t a =
     (if steps r = [] \<or> isExporting r then ([], a)
      else
        let a1 = setIsExporting True (stopSpeaking a)
        in if \<not> audio_graph env then ([], setIsExporting False a1)
           else
             let a2 = prepare_audio decode service r a1
             in if canvas_found env \<and> recorder_supported env
                then ((t, RecorderStart) # playExportStep r (audioCacheRef a2) (delays env) 0 t, a2)
                else ([], setIsExporting False a2))"


text \<open>The sources connected to the capture destination: step and buffer, as started.\<close>

fun sources :: "(nat \<times> export_event) list \<Rightarrow> (nat \<times> AudioBuffer) list" where
  "sources [] = []"
| "sources ((t, SourceStart index buffer) # rest) = (index, buffer) # sources rest"
| "sources (e # rest) = sources rest"


subsection \<open>Sample values\<close>

text \<open>
  Four steps, a fifth with the text of the first (up to white space) and another code,
  the state of the component when steps have been loaded and nothing has been played, a
  decoder, and a speech service that is rate-limited on the narration of the second
  step and answers all other texts.
\<close>

definition four_steps :: "SketchStep list" where
  "four_steps =
     [\<lparr>title = ''Boil water'', description = ''Heat a pot.'', step_code = one_circle\<rparr>,
      \<lparr>title = ''Add eggs'', description = ''Lower them in.'', step_code = one_circle\<rparr>,
      \<lparr>title = ''Wait'', description = ''Ten minutes.'', step_code = one_circle\<rparr>,
      \<lparr>title = ''Cool'', description = ''Use cold water.'', step_code = one_circle\<rparr>]"

definition twin :: SketchStep where
  "twin = \<lparr>title = '' Boil water'', description = ''Heat a pot. '', step_code = three_commands\<rparr>"

definition opened :: "SketchStep list \<Rightarrow> app" where
  "opened sts =
     \<lparr>view = \<lparr>steps = sts, currentStepIndex = 0, quotaExceeded = False, isSpeaking = False,
              isLoadingAudio = False, isExporting = False\<rparr>,
      currentStepRef = 0, activeSourceRef = None, audioCacheRef = Map.empty,
      audioLoadingPromisesRef = Map.empty, next_promise = 0, speech_calls = [], heard = []\<rparr>"

definition sample_decode :: "string \<Rightarrow> thrown + AudioBuffer" where
  "sample_decode b64 = Inr \<lparr>duration = 3000, pcm = b64\<rparr>"

definition rate_limited :: thrown where
  "rate_limited = \<lparr>status = Some 429, ecode = None, message = Some ''Too Many Requests''\<rparr>"

definition sample_service :: "string \<Rightarrow> thrown + string option" where
  "sample_service text =
     (if text = ''Add eggs. Lower them in.'' then Inl rate_limited else Inr (Some ''AAAA''))"

definition on_time :: lateness where
  "on_time = \<lparr>settle_late = (\<lambda>i. 0), ended_late = (\<lambda>i. 0), pause_late = (\<lambda>i. 0),
              hold_late = (\<lambda>i. 0), stop_late = 0\<rparr>"

definition sample_env :: export_env where
  "sample_env = \<lparr>audio_graph = True, canvas_found = True, recorder_supported = True,
                 delays = on_time\<rparr>"

section \<open>Capture\<close>

lemma drawFunction_completed:
  "drawFunction lib body q cv = (Completed, q', cv') \<Longrightarrow> q' = q @ invocations body"
proof (induction body arbitrary: q cv)
  case Nil
  then show ?case by simp
next
  case (Cons st rest)
  show ?case
  proof (cases st)
    case (Call c)
    with Cons.prems have ok: "callable lib c"
      and rec: "drawFunction lib rest (addToQueue c q) cv = (Completed, q', cv')"
      by (auto split: if_splits)
    from Cons.IH [OF rec] Call show ?thesis by (simp add: addToQueue_def)
  next
    case (Ctx m)
    with Cons.prems have "drawFunction lib rest q (cv @ [Immediate m]) = (Completed, q', cv')"
      by simp
    from Cons.IH [OF this] Ctx show ?thesis by simp
  next
    case Raise
    with Cons.prems show ?thesis by simp
  qed
qed

text \<open>
  C1. When the step code runs to its end without throwing, the captured command list is
  the list of the primitive invocations the code made, one command per invocation and in
  the order of the invocations; only a text that parsed can complete.
\<close>

theorem capture_mirrors_invocations:
  assumes "capture lib text cv = (Completed, commandQueue, cv')"
  shows "\<exists>body. compile lib text = Script body \<and> commandQueue = invocations body
           \<and> length commandQueue = length (invocations body)"
proof (cases "compile lib text")
  case Unparsable
  with assms show ?thesis by (simp add: capture_def)
next
  case (Script body)
  with assms have "drawFunction lib body [] cv = (Completed, commandQueue, cv')"
    by (simp add: capture_def)
  from drawFunction_completed [OF this] Script show ?thesis by simp
qed

theorem capture_mirrors_invocations_witness:
  "capture sample_lib three_commands [] = (Completed, [box, bad_path, label], [])
   \<and> (\<exists>body. compile sample_lib three_commands = Script body
         \<and> [box, bad_path, label] = invocations body
         \<and> length [box, bad_path, label] = length (invocations body))"
proof -
  have h: "capture sample_lib three_commands [] = (Completed, [box, bad_path, label], [])"
    by (simp add: capture_def sample_lib_def addToQueue_def box_def bad_path_def label_def)
  from capture_mirrors_invocations [OF h] h show ?thesis by simp
qed


section \<open>Timers and frames\<close>

lemma insert_timer_last:
  "\<forall>u\<in>set ts. due u \<le> due t \<Longrightarrow> insert_timer t ts = ts @ [t]"
  by (induction ts) auto

lemma set_insert_timer: "set (insert_timer t ts) = insert t (set ts)"
  by (induction ts) auto

lemma fold_clearTimeout:
  "fold clearTimeout ids s = s\<lparr>timers := filter (\<lambda>t. tid t \<notin> set ids) (timers s)\<rparr>"
proof (induction ids arbitrary: s)
  case Nil
  then show ?case by simp
next
  case (Cons i ids)
  have "filter (\<lambda>t. tid t \<notin> set ids) (filter (\<lambda>t. tid t \<noteq> i) (timers s))
        = filter (\<lambda>t. tid t \<notin> set (i # ids)) (timers s)"
    by (induction "timers s") auto
  moreover have "fold clearTimeout (i # ids) s = fold clearTimeout ids (clearTimeout i s)"
    by simp
  moreover have "timers (clearTimeout i s) = filter (\<lambda>t. tid t \<noteq> i) (timers s)"
    and "(clearTimeout i s)\<lparr>timers := ts\<rparr> = s\<lparr>timers := ts\<rparr>" for ts
    by (simp_all add: clearTimeout_def)
  ultimately show ?case by (simp only: Cons.IH)
qed

lemma clearTimeouts_tracked: "tracked s \<Longrightarrow> clearTimeouts s = s\<lparr>timers := []\<rparr>"
proof -
  assume "tracked s"
  then have "filter (\<lambda>t. tid t \<notin> set (timeoutsRef s)) (timers s) = []"
    by (auto simp: tracked_def filter_empty_conv)
  then show ?thesis by (simp add: clearTimeouts_def fold_clearTimeout)
qed

lemma schedule_jobs:
  "\<forall>u\<in>set (timers s). due u \<le> clock s + n * STAGGER_DELAY \<Longrightarrow>
   map job (timers (schedule (enumerate n q) s)) = map job (timers s) @ enumerate n q"
proof (induction q arbitrary: n s)
  case Nil
  then show ?case by simp
next
  case (Cons c q)
  let ?t = "\<lparr>tid = next_timer s, due = clock s + n * STAGGER_DELAY, job = (n, c)\<rparr>"
  let ?s = "s\<lparr>timers := timers s @ [?t], next_timer := Suc (next_timer s),
              timeoutsRef := timeoutsRef s @ [next_timer s]\<rparr>"
  have ins: "insert_timer ?t (timers s) = timers s @ [?t]"
    using Cons.prems by (intro insert_timer_last) simp
  have step: "schedule (enumerate n (c # q)) s = schedule (enumerate (Suc n) q) ?s"
    by (simp add: setTimeout_def ins)
  have "\<forall>u\<in>set (timers ?s). due u \<le> clock ?s + Suc n * STAGGER_DELAY"
    using Cons.prems by (auto intro: le_trans)
  from Cons.IH [OF this] show ?case
    unfolding step by simp
qed

lemma schedule_rest:
  "frames (schedule xs s) = frames s \<and> executed (schedule xs s) = executed s
   \<and> picture (schedule xs s) = picture s \<and> clock (schedule xs s) = clock s
   \<and> surface (schedule xs s) = surface s"
  by (induction xs s rule: schedule.induct) (auto simp: setTimeout_def)

lemma schedule_tracked: "tracked s \<Longrightarrow> tracked (schedule xs s)"
  by (induction xs s rule: schedule.induct)
     (auto simp: setTimeout_def tracked_def set_insert_timer)

lemma runAnimation_completed:
  assumes "surface s" "tracked s" "capture lib (code s) [] = (Completed, q, cv)"
  shows "fst (runAnimation lib s) = q"
    and "map job (timers (snd (runAnimation lib s))) = enumerate 0 q"
    and "frames (snd (runAnimation lib s)) = frames s"
    and "executed (snd (runAnimation lib s)) = executed s"
    and "picture (snd (runAnimation lib s)) = cv"
proof -
  let ?s3 = "s\<lparr>picture := [], timers := [], timeoutsRef := [], error := None\<rparr>"
  have "tracked (s\<lparr>picture := []\<rparr>)" using assms(2) by (simp add: tracked_def)
  from clearTimeouts_tracked [OF this]
  have ct: "clearTimeouts (s\<lparr>picture := []\<rparr>) = s\<lparr>picture := [], timers := []\<rparr>"
    by simp
  have run: "runAnimation lib s = (q, schedule (enumerate 0 q) (?s3\<lparr>picture := cv\<rparr>))"
    using assms(1,3) by (simp add: runAnimation_def Let_def ct)
  have jobs: "map job (timers (schedule (enumerate 0 q) (?s3\<lparr>picture := cv\<rparr>))) = enumerate 0 q"
  proof -
    have "\<forall>u\<in>set (timers (?s3\<lparr>picture := cv\<rparr>)).
            due u \<le> clock (?s3\<lparr>picture := cv\<rparr>) + 0 * STAGGER_DELAY"
      by simp
    from schedule_jobs [OF this] show ?thesis by simp
  qed
  show "fst (runAnimation lib s) = q" by (simp add: run)
  show "map job (timers (snd (runAnimation lib s))) = enumerate 0 q"
    using jobs by (simp add: run)
  show "frames (snd (runAnimation lib s)) = frames s" by (simp add: run schedule_rest)
  show "executed (snd (runAnimation lib s)) = executed s" by (simp add: run schedule_rest)
  show "picture (snd (runAnimation lib s)) = cv" by (simp add: run schedule_rest)
qed

lemma fold_run_command:
  "executed (fold (run_command lib) fs s) = executed s @ map snd fs
   \<and> picture (fold (run_command lib) fs s) = picture s @ painted lib (map snd fs)
   \<and> timers (fold (run_command lib) fs s) = timers s
   \<and> frames (fold (run_command lib) fs s) = frames s"
  by (induction fs arbitrary: s) (auto simp: run_command_def painted_def)

lemma fire_pending:
  "browser_event e \<Longrightarrow>
     executed (fire lib e s) @ pending (fire lib e s) = executed s @ pending s"
  by (cases e) (auto simp: pending_def fold_run_command split: list.splits)

lemma fire_picture:
  "browser_event e \<Longrightarrow>
     picture (fire lib e s) @ painted lib (pending (fire lib e s))
       = picture s @ painted lib (pending s)"
  by (cases e) (auto simp: pending_def fold_run_command painted_def split: list.splits)

lemma run_pending:
  "list_all browser_event evs \<Longrightarrow>
     executed (run lib evs s) @ pending (run lib evs s) = executed s @ pending s"
  unfolding run_def by (induction evs arbitrary: s) (simp_all add: fire_pending)

lemma run_picture:
  "list_all browser_event evs \<Longrightarrow>
     picture (run lib evs s) @ painted lib (pending (run lib evs s))
       = picture s @ painted lib (pending s)"
  unfolding run_def by (induction evs arbitrary: s) (simp_all add: fire_picture)

lemma timeouts_drain:
  "length (timers s) = n \<Longrightarrow>
     timers (run lib (replicate n Timeout) s) = []
     \<and> frames (run lib (replicate n Timeout) s) = frames s @ map job (timers s)"
  unfolding run_def
proof (induction n arbitrary: s)
  case 0
  then show ?case by simp
next
  case (Suc n)
  then obtain t ts where ts: "timers s = t # ts" by (cases "timers s") auto
  let ?s = "s\<lparr>timers := ts, clock := max (clock s) (due t), frames := frames s @ [job t]\<rparr>"
  have "length (timers ?s) = n" using Suc.prems ts by simp
  from Suc.IH [OF this] show ?case by (simp add: ts)
qed

lemma drain_quiescent:
  "quiescent (run lib (replicate (length (timers s)) Timeout @ [Frame]) s)"
proof -
  let ?s = "run lib (replicate (length (timers s)) Timeout) s"
  have "timers ?s = []" using timeouts_drain [of s "length (timers s)" lib] by simp
  then show ?thesis
    by (simp add: run_def quiescent_def fold_run_command)
qed


lemma runAnimation_tracked: "tracked s \<Longrightarrow> tracked (snd (runAnimation lib s))"
proof -
  assume tr: "tracked s"
  have t0: "tracked (s\<lparr>picture := [], timers := [], timeoutsRef := [], error := None, picture := cv\<rparr>)" for cv
    by (simp add: tracked_def)
  have "tracked (s\<lparr>picture := []\<rparr>)" using tr by (simp add: tracked_def)
  from clearTimeouts_tracked [OF this]
  have ct: "clearTimeouts (s\<lparr>picture := []\<rparr>) = s\<lparr>picture := [], timers := []\<rparr>"
    by simp
  show ?thesis
  proof (cases "surface s")
    case False
    then show ?thesis using tr by (simp add: runAnimation_def)
  next
    case True
    obtain out q cv where cap: "capture lib (code s) [] = (out, q, cv)"
      by (cases "capture lib (code s) []") auto
    show ?thesis
    proof (cases out)
      case Completed
      with True cap schedule_tracked [OF t0, of "enumerate 0 q" cv] show ?thesis
        by (simp add: runAnimation_def Let_def ct)
    next
      case Thrown
      with True cap show ?thesis
        by (simp add: runAnimation_def Let_def ct tracked_def)
    qed
  qed
qed

lemma fold_run_command_tracked:
  "tracked s \<Longrightarrow> tracked (fold (run_command lib) fs s)"
  by (induction fs arbitrary: s) (auto simp: run_command_def tracked_def)

lemma fire_tracked: "tracked s \<Longrightarrow> tracked (fire lib e s)"
proof (cases e)
  case Timeout
  assume "tracked s" with Timeout show ?thesis
    by (auto simp: tracked_def split: list.splits)
next
  case Frame
  assume "tracked s"
  then have "tracked (s\<lparr>frames := []\<rparr>)" by (simp add: tracked_def)
  with Frame show ?thesis by (simp add: fold_run_command_tracked)
next
  case Replay
  assume "tracked s" with Replay show ?thesis by (simp add: runAnimation_tracked)
next
  case (Props c w h)
  assume tr: "tracked s"
  then have "tracked ((clearTimeouts s)\<lparr>code := c, width := w, height := h\<rparr>)"
    by (simp add: clearTimeouts_tracked tracked_def)
  with Props tr show ?thesis by (simp add: runAnimation_tracked)
next
  case Unmount
  assume "tracked s" with Unmount show ?thesis
    by (simp add: clearTimeouts_tracked) (simp add: tracked_def)
qed

lemma mount_tracked: "tracked (mount lib c w h)"
  unfolding mount_def by (rule runAnimation_tracked) (simp add: tracked_def rendered_def)

lemma run_tracked: "tracked s \<Longrightarrow> tracked (run lib evs s)"
  unfolding run_def by (induction evs arbitrary: s) (simp_all add: fire_tracked)

lemma unmount_leaves_requested_frames:
  "tracked s \<Longrightarrow> pending (fire lib Unmount s) = map snd (frames s)"
  by (simp add: clearTimeouts_tracked pending_def)

lemma runAnimation_thrown:
  assumes "surface s" "tracked s" "capture lib (code s) [] = (Thrown, q, cv)"
  shows "fst (runAnimation lib s) = q @ [fallback s]
    \<and> timers (snd (runAnimation lib s)) = []
    \<and> frames (snd (runAnimation lib s)) = frames s
    \<and> picture (snd (runAnimation lib s)) = cv"
proof -
  have "tracked (s\<lparr>picture := []\<rparr>)" using assms(2) by (simp add: tracked_def)
  from clearTimeouts_tracked [OF this]
  have ct: "clearTimeouts (s\<lparr>picture := []\<rparr>) = s\<lparr>picture := [], timers := []\<rparr>"
    by simp
  show ?thesis using assms(1,3)
    by (simp add: runAnimation_def Let_def ct addToQueue_def fallback_def)
qed


section \<open>Replay\<close>

text \<open>
  C4. Let \<open>runAnimation\<close> capture the queue \<open>q\<close> on a canvas whose pending timeouts are
  all tracked. The timeouts and frames it leaves behind can be run to the end (all
  timeouts, then a frame), and however the browser interleaves timeouts and frames, once
  nothing is pending every command of \<open>q\<close> has been called, in the order of \<open>q\<close> (after
  the commands whose frame was already requested), whichever of them raise; the picture
  holds every one of them that does not raise. So the commands after a failing one are
  dispatched and executed.
\<close>

theorem replay_survives_failing_commands:
  assumes "surface s" and "tracked s"
    and "capture lib (code s) [] = (Completed, q, cv)"
  shows "quiescent (run lib (replicate (length q) Timeout @ [Frame]) (snd (runAnimation lib s)))
    \<and> (\<forall>evs. list_all browser_event evs
            \<and> quiescent (run lib evs (snd (runAnimation lib s)))
          \<longrightarrow> executed (run lib evs (snd (runAnimation lib s)))
                = executed s @ map snd (frames s) @ q
            \<and> picture (run lib evs (snd (runAnimation lib s)))
                = cv @ painted lib (map snd (frames s) @ q))"
proof -
  let ?s1 = "snd (runAnimation lib s)"
  note ra = runAnimation_completed [OF assms]
  have jobs: "map (snd \<circ> job) (timers ?s1) = q"
  proof -
    have "map (snd \<circ> job) (timers ?s1) = map snd (map job (timers ?s1))" by simp
    also have "\<dots> = map snd (enumerate 0 q)" by (simp only: ra(2))
    finally show ?thesis by simp
  qed
  have len: "length (timers ?s1) = length q"
    using arg_cong [OF ra(2), of length] by simp
  have pend: "pending ?s1 = map snd (frames s) @ q"
    by (simp add: pending_def jobs ra(3))
  have first: "quiescent (run lib (replicate (length q) Timeout @ [Frame]) ?s1)"
    using drain_quiescent [of lib ?s1] by (simp add: len)
  have second: "executed (run lib evs ?s1) = executed s @ map snd (frames s) @ q
      \<and> picture (run lib evs ?s1) = cv @ painted lib (map snd (frames s) @ q)"
    if evs: "list_all browser_event evs" and qu: "quiescent (run lib evs ?s1)" for evs
  proof -
    have none: "pending (run lib evs ?s1) = []"
      using qu by (simp add: quiescent_def pending_def)
    from run_pending [OF evs, of lib ?s1] run_picture [OF evs, of lib ?s1]
    show ?thesis by (simp add: none pend ra(4,5) painted_def)
  qed
  from first second show ?thesis by blast
qed

theorem replay_survives_failing_commands_witness:
  "surface (rendered three_commands 800 600) \<and> tracked (rendered three_commands 800 600)
   \<and> capture sample_lib (code (rendered three_commands 800 600)) []
       = (Completed, [box, bad_path, label], [])
   \<and> throws sample_lib bad_path
   \<and> list_all browser_event [Timeout, Frame, Timeout, Timeout, Frame]
   \<and> quiescent (run sample_lib [Timeout, Frame, Timeout, Timeout, Frame]
         (snd (runAnimation sample_lib (rendered three_commands 800 600))))
   \<and> executed (run sample_lib [Timeout, Frame, Timeout, Timeout, Frame]
         (snd (runAnimation sample_lib (rendered three_commands 800 600))))
       = [box, bad_path, label]
   \<and> picture (run sample_lib [Timeout, Frame, Timeout, Timeout, Frame]
         (snd (runAnimation sample_lib (rendered three_commands 800 600))))
       = [Drawn box, Drawn label]"
proof -
  let ?s = "rendered three_commands 800 600"
  let ?evs = "[Timeout, Frame, Timeout, Timeout, Frame]"
  have h1: "surface ?s" and h2: "tracked ?s"
    by (simp_all add: rendered_def tracked_def)
  have h3: "capture sample_lib (code ?s) [] = (Completed, [box, bad_path, label], [])"
    by (simp add: rendered_def capture_def sample_lib_def addToQueue_def
        box_def bad_path_def label_def)
  have h4: "throws sample_lib bad_path" by (simp add: sample_lib_def bad_path_def)
  have h5: "list_all browser_event ?evs" by simp
  have h6: "quiescent (run sample_lib ?evs (snd (runAnimation sample_lib ?s)))"
    by code_simp
  from replay_survives_failing_commands [OF h1 h2 h3] h5 h6
  have "executed (run sample_lib ?evs (snd (runAnimation sample_lib ?s)))
          = executed ?s @ map snd (frames ?s) @ [box, bad_path, label]
        \<and> picture (run sample_lib ?evs (snd (runAnimation sample_lib ?s)))
          = [] @ painted sample_lib (map snd (frames ?s) @ [box, bad_path, label])"
    by blast
  moreover have "executed ?s = [] \<and> frames ?s = []" by (simp add: rendered_def)
  moreover have "painted sample_lib [box, bad_path, label] = [Drawn box, Drawn label]"
    by (simp add: painted_def sample_lib_def box_def bad_path_def label_def)
  ultimately show ?thesis using h1 h2 h3 h4 h5 h6 by simp
qed

section \<open>The fallback notice\<close>

text \<open>
  C2. A step code that throws after one call (and a step code that does not parse):
  \<open>runAnimation\<close> returns, the error state is set and the notice is appended to the local
  queue, behind what was captured before the throw; no timeout and no frame is pending,
  so after the next timeout and frame of the browser the canvas is still blank.
\<close>

theorem fallback_notice_never_drawn:
  "fst (runAnimation sample_lib (rendered failing_code 800 600))
     = [box, DrawText [Str ''Oops! Drawing Error.'', Num 400, Num 300,
                       Opts [(''color'', Str ''#ef4444''), (''size'', Num 40)]]]
   \<and> timers (mount sample_lib failing_code 800 600) = []
   \<and> frames (mount sample_lib failing_code 800 600) = []
   \<and> error (mount sample_lib failing_code 800 600) = Some ''Could not draw this step.''
   \<and> picture (run sample_lib [Timeout, Frame] (mount sample_lib failing_code 800 600)) = []
   \<and> fst (runAnimation sample_lib (rendered cut_short 800 600))
     = [DrawText [Str ''Oops! Drawing Error.'', Num 400, Num 300,
                  Opts [(''color'', Str ''#ef4444''), (''size'', Num 40)]]]
   \<and> timers (mount sample_lib cut_short 800 600) = []
   \<and> picture (run sample_lib [Timeout, Frame] (mount sample_lib cut_short 800 600)) = []"
  by (simp add: runAnimation_def rendered_def mount_def run_def failing_code_def capture_def
      sample_lib_def box_def label_def clearTimeouts_def addToQueue_def fallback_def
      three_commands_def one_circle_def cut_short_def)


section \<open>Cancellation\<close>

text \<open>
  C3. A replay of three commands whose first timeout has fired is cancelled by the
  unmount cleanup, by a call of \<open>replay\<close>, or by new props: no command has run when the
  cancellation returns, and the first command runs at the next frame, in the last case
  on the canvas of the new step.
\<close>

theorem cancelled_replay_still_draws:
  "executed (run sample_lib [Timeout, Unmount] (mount sample_lib three_commands 800 600)) = []
   \<and> timers (run sample_lib [Timeout, Unmount] (mount sample_lib three_commands 800 600)) = []
   \<and> executed (run sample_lib [Timeout, Unmount, Frame] (mount sample_lib three_commands 800 600))
       = [box]
   \<and> executed (run sample_lib [Timeout, Replay] (mount sample_lib three_commands 800 600)) = []
   \<and> executed (run sample_lib [Timeout, Replay, Frame]
                 (mount sample_lib three_commands 800 600)) = [box]
   \<and> picture (run sample_lib [Timeout, Props one_circle 800 600]
                 (mount sample_lib three_commands 800 600)) = []
   \<and> picture (run sample_lib [Timeout, Props one_circle 800 600, Frame]
                 (mount sample_lib three_commands 800 600)) = [Drawn box]"
  by code_simp

section \<open>The history service\<close>














section \<open>The audio cache\<close>

lemma ensureAudioLoaded_joins:
  assumes "\<not> quotaExceeded r" "step_at (steps r) i = Some step"
    and "audioCacheRef a (getAudioKey step) = None"
    and "audioLoadingPromisesRef a (getAudioKey step) = Some p"
  shows "ensureAudioLoaded r i a = (Awaiting p, a)"
  using assms by (simp add: ensureAudioLoaded_def)

lemma ensureAudioLoaded_cached:
  assumes "\<not> quotaExceeded r" "step_at (steps r) i = Some step"
    and "audioCacheRef a (getAudioKey step) = Some buffer"
  shows "ensureAudioLoaded r i a = (Resolved buffer, a)"
  using assms by (simp add: ensureAudioLoaded_def)

lemma ensureAudioLoaded_starts:
  assumes "\<not> quotaExceeded r" "step_at (steps r) i = Some step"
    and "audioCacheRef a (getAudioKey step) = None"
    and "audioLoadingPromisesRef a (getAudioKey step) = None"
  shows "ensureAudioLoaded r i a =
     (Awaiting \<lparr>pid = next_promise a, p_index = i, p_key = getAudioKey step,
                p_text = narration step\<rparr>,
      a\<lparr>speech_calls := speech_calls a @ [narration step],
        audioLoadingPromisesRef := (audioLoadingPromisesRef a)(getAudioKey step \<mapsto>
          \<lparr>pid = next_promise a, p_index = i, p_key = getAudioKey step,
           p_text = narration step\<rparr>),
        next_promise := Suc (next_promise a)\<rparr>)"
  using assms by (simp add: ensureAudioLoaded_def Let_def)



lemma speech_settled_Inr:
  assumes "speech_settled decode p reply a = (Inr buffer, a')"
  shows "a' = a\<lparr>audioCacheRef := (audioCacheRef a)(p_key p \<mapsto> buffer),
        audioLoadingPromisesRef := (audioLoadingPromisesRef a)(p_key p := None)\<rparr>"
  using assms by (auto simp: speech_settled_def Let_def split: sum.splits if_splits)









text \<open>
  C6. Two steps whose trimmed titles and trimmed descriptions agree have the same key,
  wherever they stand and whatever their code. Both are served the same cached buffer;
  and when nothing is cached or in flight, the second joins the load the first has
  started, and once that load has succeeded the second is served from the cache, with
  one call of the speech service in all.
\<close>

theorem audio_key_is_content_derived:
  assumes "trim (title s1) = trim (title s2)"
    and "trim (description s1) = trim (description s2)"
    and "step_at (steps r1) i = Some s1" and "step_at (steps r2) j = Some s2"
    and "\<not> quotaExceeded r1" and "\<not> quotaExceeded r2"
  shows "getAudioKey s1 = getAudioKey s2
    \<and> (\<forall>buffer. audioCacheRef a (getAudioKey s1) = Some buffer
          \<longrightarrow> ensureAudioLoaded r1 i a = (Resolved buffer, a)
            \<and> ensureAudioLoaded r2 j a = (Resolved buffer, a))
    \<and> (audioCacheRef a (getAudioKey s1) = None
        \<and> audioLoadingPromisesRef a (getAudioKey s1) = None
          \<longrightarrow> ensureAudioLoaded r2 j (snd (ensureAudioLoaded r1 i a))
                = (fst (ensureAudioLoaded r1 i a), snd (ensureAudioLoaded r1 i a))
            \<and> (\<forall>p decode reply buffer a'.
                   fst (ensureAudioLoaded r1 i a) = Awaiting p
                   \<and> speech_settled decode p reply (snd (ensureAudioLoaded r1 i a))
                       = (Inr buffer, a')
                 \<longrightarrow> ensureAudioLoaded r2 j a' = (Resolved buffer, a')
                     \<and> speech_calls a' = speech_calls a @ [narration s1]))"
proof -
  have key: "getAudioKey s1 = getAudioKey s2"
    using assms(1,2) by (simp add: getAudioKey_def)
  have cached: "ensureAudioLoaded r1 i a = (Resolved buffer, a)
            \<and> ensureAudioLoaded r2 j a = (Resolved buffer, a)"
    if "audioCacheRef a (getAudioKey s1) = Some buffer" for buffer
    using that assms(3-6) key by (simp add: ensureAudioLoaded_cached)
  have loading: "ensureAudioLoaded r2 j (snd (ensureAudioLoaded r1 i a))
                = (fst (ensureAudioLoaded r1 i a), snd (ensureAudioLoaded r1 i a))
            \<and> (\<forall>p decode reply buffer a'.
                   fst (ensureAudioLoaded r1 i a) = Awaiting p
                   \<and> speech_settled decode p reply (snd (ensureAudioLoaded r1 i a))
                       = (Inr buffer, a')
                 \<longrightarrow> ensureAudioLoaded r2 j a' = (Resolved buffer, a')
                     \<and> speech_calls a' = speech_calls a @ [narration s1])"
    if none: "audioCacheRef a (getAudioKey s1) = None"
      and fresh: "audioLoadingPromisesRef a (getAudioKey s1) = None"
  proof -
    let ?p = "\<lparr>pid = next_promise a, p_index = i, p_key = getAudioKey s1,
               p_text = narration s1\<rparr>"
    let ?a = "a\<lparr>speech_calls := speech_calls a @ [narration s1],
        audioLoadingPromisesRef := (audioLoadingPromisesRef a)(getAudioKey s1 \<mapsto> ?p),
        next_promise := Suc (next_promise a)\<rparr>"
    have one: "ensureAudioLoaded r1 i a = (Awaiting ?p, ?a)"
      using ensureAudioLoaded_starts [OF assms(5,3) none fresh] .
    have "audioCacheRef ?a (getAudioKey s2) = None" using none key by simp
    moreover have "audioLoadingPromisesRef ?a (getAudioKey s2) = Some ?p" using key by simp
    ultimately have two: "ensureAudioLoaded r2 j ?a = (Awaiting ?p, ?a)"
      by (rule ensureAudioLoaded_joins [OF assms(6,4)])
    have three: "ensureAudioLoaded r2 j a' = (Resolved buffer, a')
        \<and> speech_calls a' = speech_calls a @ [narration s1]"
      if "speech_settled decode ?p reply ?a = (Inr buffer, a')" for decode reply buffer a'
    proof -
      from speech_settled_Inr [OF that]
      have a': "a' = ?a\<lparr>audioCacheRef := (audioCacheRef ?a)(getAudioKey s1 \<mapsto> buffer),
          audioLoadingPromisesRef := (audioLoadingPromisesRef ?a)(getAudioKey s1 := None)\<rparr>"
        by simp
      have "audioCacheRef a' (getAudioKey s2) = Some buffer"
        by (simp add: a' key)
      from ensureAudioLoaded_cached [OF assms(6,4) this]
      show ?thesis by (simp add: a')
    qed
    show ?thesis using two three by (simp add: one)
  qed
  from key cached loading show ?thesis by blast
qed


theorem audio_key_is_content_derived_witness:
  "trim (title (four_steps ! 0)) = trim (title twin)
   \<and> trim (description (four_steps ! 0)) = trim (description twin)
   \<and> step_code (four_steps ! 0) \<noteq> step_code twin
   \<and> step_at (steps (view (opened four_steps))) 0 = Some (four_steps ! 0)
   \<and> step_at (steps (view (opened [four_steps ! 3, twin]))) 1 = Some twin
   \<and> getAudioKey (four_steps ! 0) = getAudioKey twin
   \<and> ensureAudioLoaded (view (opened [four_steps ! 3, twin])) 1
         (snd (ensureAudioLoaded (view (opened four_steps)) 0 (opened four_steps)))
       = (fst (ensureAudioLoaded (view (opened four_steps)) 0 (opened four_steps)),
          snd (ensureAudioLoaded (view (opened four_steps)) 0 (opened four_steps)))
   \<and> ensureAudioLoaded (view (opened four_steps)) 0
         ((opened four_steps)\<lparr>audioCacheRef := [''Boil water|Heat a pot.'' \<mapsto>
             \<lparr>duration = 3000, pcm = ''AAAA''\<rparr>]\<rparr>)
       = ensureAudioLoaded (view (opened [four_steps ! 3, twin])) 1
         ((opened four_steps)\<lparr>audioCacheRef := [''Boil water|Heat a pot.'' \<mapsto>
             \<lparr>duration = 3000, pcm = ''AAAA''\<rparr>]\<rparr>)"
proof -
  let ?r1 = "view (opened four_steps)" and ?r2 = "view (opened [four_steps ! 3, twin])"
  let ?b = "\<lparr>duration = 3000, pcm = ''AAAA''\<rparr>"
  let ?a = "(opened four_steps)\<lparr>audioCacheRef := [''Boil water|Heat a pot.'' \<mapsto> ?b]\<rparr>"
  have h1: "trim (title (four_steps ! 0)) = trim (title twin)"
    and h2: "trim (description (four_steps ! 0)) = trim (description twin)"
    and h0: "step_code (four_steps ! 0) \<noteq> step_code twin"
    by (simp_all add: four_steps_def twin_def trim_def is_space_def one_circle_def
        three_commands_def)
  have h3: "step_at (steps ?r1) 0 = Some (four_steps ! 0)"
    and h4: "step_at (steps ?r2) 1 = Some twin"
    by (simp_all add: opened_def step_at_def four_steps_def)
  have h5: "\<not> quotaExceeded ?r1" and h6: "\<not> quotaExceeded ?r2"
    by (simp_all add: opened_def)
  have c: "audioCacheRef (opened four_steps) (getAudioKey (four_steps ! 0)) = None
      \<and> audioLoadingPromisesRef (opened four_steps) (getAudioKey (four_steps ! 0)) = None"
    by (simp add: opened_def)
  have d: "audioCacheRef ?a (getAudioKey (four_steps ! 0)) = Some ?b"
    by (simp add: four_steps_def getAudioKey_def trim_def is_space_def)
  note t = audio_key_is_content_derived [OF h1 h2 h3 h4 h5 h6]
  from t [of "opened four_steps"] c
  have k: "getAudioKey (four_steps ! 0) = getAudioKey twin"
    and j: "ensureAudioLoaded ?r2 1 (snd (ensureAudioLoaded ?r1 0 (opened four_steps)))
       = (fst (ensureAudioLoaded ?r1 0 (opened four_steps)),
          snd (ensureAudioLoaded ?r1 0 (opened four_steps)))"
    by blast+
  from t [of ?a] d
  have "ensureAudioLoaded ?r1 0 ?a = (Resolved ?b, ?a) \<and> ensureAudioLoaded ?r2 1 ?a = (Resolved ?b, ?a)"
    by blast
  with h0 h1 h2 h3 h4 k j show ?thesis by simp
qed





section \<open>Export\<close>






lemma prepare_step_loads:
  assumes "i < length (steps r)" and "\<not> quotaExceeded r"
    and "audioCacheRef a (getAudioKey (steps r ! i)) = None"
    and "audioLoadingPromisesRef a (getAudioKey (steps r ! i)) = None"
    and "generateSpeech (service (narration (steps r ! i))) = Inr b64"
    and "decode b64 = Inr buffer"
  shows "prepare_step decode service r i a =
     a\<lparr>speech_calls := speech_calls a @ [narration (steps r ! i)],
       next_promise := Suc (next_promise a),
       audioCacheRef := (audioCacheRef a)(getAudioKey (steps r ! i) \<mapsto> buffer)\<rparr>"
proof -
  have st: "step_at (steps r) (int i) = Some (steps r ! i)"
    using assms(1) by (simp add: step_at_def)
  have idem: "(audioLoadingPromisesRef a)(getAudioKey (steps r ! i) := None)
      = audioLoadingPromisesRef a"
    using assms(4) by (simp add: fun_upd_idem)
  show ?thesis
    using assms(3,5,6)
    by (simp add: prepare_step_def await_ensure_def speech_settled_def
        ensureAudioLoaded_starts [OF assms(2) st assms(3,4)] idem)
qed

lemma prepare_step_rate_limited:
  assumes "i < length (steps r)" and "\<not> quotaExceeded r"
    and "audioCacheRef a (getAudioKey (steps r ! i)) = None"
    and "audioLoadingPromisesRef a (getAudioKey (steps r ! i)) = None"
    and "service (narration (steps r ! i)) = Inl e" and "is_rate_limit e"
  shows "prepare_step decode service r i a =
     setQuotaExceeded True
       (a\<lparr>speech_calls := speech_calls a @ [narration (steps r ! i)],
          next_promise := Suc (next_promise a)\<rparr>)"
proof -
  have st: "step_at (steps r) (int i) = Some (steps r ! i)"
    using assms(1) by (simp add: step_at_def)
  have idem: "(audioLoadingPromisesRef a)(getAudioKey (steps r ! i) := None)
      = audioLoadingPromisesRef a"
    using assms(4) by (simp add: fun_upd_idem)
  show ?thesis
    using assms(3,5,6)
    by (simp add: prepare_step_def await_ensure_def speech_settled_def generateSpeech_def
        setQuotaExceeded_def ensureAudioLoaded_starts [OF assms(2) st assms(3,4)] idem)
qed



text \<open>
  C7. Four steps with different keys, nothing cached or in flight, an export started by
  a render without the quota flag, and a speech service that is rate-limited on the
  narration of the second step and serves the other three. The export goes on: all four
  narrations are requested, the first, third and fourth step are recorded with their
  audio, and the second is replayed and held for 5000 ms (and the lateness of that
  timer) before the third is shown; the recording ends with the stop of the recorder.
  The quota flag is set by then; the running export does not see it.
\<close>

theorem export_survives_rate_limit:
  assumes sts: "steps r = [s0, s1, s2, s3]"
    and r: "\<not> quotaExceeded r" "\<not> isExporting r"
    and keys: "distinct (map getAudioKey [s0, s1, s2, s3])"
    and fresh: "\<forall>s \<in> set [s0, s1, s2, s3]. audioCacheRef a (getAudioKey s) = None
                  \<and> audioLoadingPromisesRef a (getAudioKey s) = None"
    and env: "audio_graph env" "canvas_found env" "recorder_supported env"
    and limited: "service (narration s1) = Inl e" "is_rate_limit e"
    and ok0: "generateSpeech (service (narration s0)) = Inr x0" "decode x0 = Inr b0"
    and ok2: "generateSpeech (service (narration s2)) = Inr x2" "decode x2 = Inr b2"
    and ok3: "generateSpeech (service (narration s3)) = Inr x3" "decode x3 = Inr b3"
  shows "speech_calls (snd (handleExportVideo decode service env r t a))
        = speech_calls a @ [narration s0, narration s1, narration s2, narration s3]
    \<and> isExporting (view (snd (handleExportVideo decode service env r t a)))
    \<and> quotaExceeded (view (snd (handleExportVideo decode service env r t a)))
    \<and> sources (fst (handleExportVideo decode service env r t a)) = [(0, b0), (2, b2), (3, b3)]
    \<and> (\<exists>u. (u, ReplayCanvas 1) \<in> set (fst (handleExportVideo decode service env r t a))
           \<and> (u + 5000 + hold_late (delays env) 1, Show 2)
               \<in> set (fst (handleExportVideo decode service env r t a)))
    \<and> snd (last (fst (handleExportVideo decode service env r t a))) = RecorderStop"
proof -
  let ?k0 = "getAudioKey s0" and ?k1 = "getAudioKey s1"
  let ?k2 = "getAudioKey s2" and ?k3 = "getAudioKey s3"
  have at: "steps r ! 0 = s0" "steps r ! Suc 0 = s1" "steps r ! 2 = s2" "steps r ! 3 = s3"
    and len: "length (steps r) = 4"
    by (simp_all add: sts)
  have ne: "?k0 \<noteq> ?k1" "?k0 \<noteq> ?k2" "?k0 \<noteq> ?k3" "?k1 \<noteq> ?k2" "?k1 \<noteq> ?k3"
    "?k2 \<noteq> ?k3" "?k1 \<noteq> ?k0" "?k2 \<noteq> ?k0" "?k3 \<noteq> ?k0" "?k2 \<noteq> ?k1" "?k3 \<noteq> ?k1"
    "?k3 \<noteq> ?k2"
    using keys by auto
  define a1 where "a1 = setIsExporting True (stopSpeaking a)"
  define a2 where "a2 = a1\<lparr>speech_calls := speech_calls a1 @ [narration s0],
       next_promise := Suc (next_promise a1),
       audioCacheRef := (audioCacheRef a1)(?k0 \<mapsto> b0)\<rparr>"
  define a3 where "a3 = setQuotaExceeded True
       (a2\<lparr>speech_calls := speech_calls a2 @ [narration s1],
          next_promise := Suc (next_promise a2)\<rparr>)"
  define a4 where "a4 = a3\<lparr>speech_calls := speech_calls a3 @ [narration s2],
       next_promise := Suc (next_promise a3),
       audioCacheRef := (audioCacheRef a3)(?k2 \<mapsto> b2)\<rparr>"
  define a5 where "a5 = a4\<lparr>speech_calls := speech_calls a4 @ [narration s3],
       next_promise := Suc (next_promise a4),
       audioCacheRef := (audioCacheRef a4)(?k3 \<mapsto> b3)\<rparr>"
  have f1: "audioCacheRef a1 = audioCacheRef a"
    "audioLoadingPromisesRef a1 = audioLoadingPromisesRef a"
    "speech_calls a1 = speech_calls a"
    by (simp_all add: a1_def setIsExporting_def stopSpeaking_def setIsSpeaking_def)
  have p0: "prepare_step decode service r 0 a1 = a2"
    unfolding a2_def using fresh ok0 r(1)
    by (subst prepare_step_loads [where ?b64.0 = x0 and buffer = b0]) (simp_all add: at len f1)
  have p1: "prepare_step decode service r (Suc 0) a2 = a3"
    unfolding a3_def using fresh limited r(1) ne
    by (subst prepare_step_rate_limited [where e = e]) (simp_all add: at len f1 a2_def)
  have p2: "prepare_step decode service r 2 a3 = a4"
    unfolding a4_def using fresh ok2 r(1) ne
    by (subst prepare_step_loads [where ?b64.0 = x2 and buffer = b2])
       (simp_all add: at len f1 a2_def a3_def setQuotaExceeded_def)
  have p3: "prepare_step decode service r 3 a4 = a5"
    unfolding a5_def using fresh ok3 r(1) ne
    by (subst prepare_step_loads [where ?b64.0 = x3 and buffer = b3])
       (simp_all add: at len f1 a2_def a3_def a4_def setQuotaExceeded_def)
  have upt4: "[0..<4] = [0, Suc 0, 2, 3::nat]"
    by (simp add: upt_rec)
  have prep: "prepare_audio decode service r a1 = a5"
    by (simp add: prepare_audio_def len upt4 p0 p1 p2 p3)
  have H: "handleExportVideo decode service env r t a
      = ((t, RecorderStart) # playExportStep r (audioCacheRef a5) (delays env) 0 t, a5)"
    using r(2) env
    by (simp add: handleExportVideo_def sts Let_def prep [unfolded a1_def])
  have cache: "audioCacheRef a5 ?k0 = Some b0" "audioCacheRef a5 ?k1 = None"
    "audioCacheRef a5 ?k2 = Some b2" "audioCacheRef a5 ?k3 = Some b3"
    using fresh ne
    by (simp_all add: a5_def a4_def a3_def a2_def f1 setQuotaExceeded_def)
  have calls: "speech_calls a5
      = speech_calls a @ [narration s0, narration s1, narration s2, narration s3]"
    by (simp add: a5_def a4_def a3_def a2_def f1 setQuotaExceeded_def)
  have flags: "isExporting (view a5)" "quotaExceeded (view a5)"
    by (simp_all add: a5_def a4_def a3_def a2_def a1_def setQuotaExceeded_def
        setIsExporting_def stopSpeaking_def setIsSpeaking_def)
  let ?late = "delays env"
  let ?c = "audioCacheRef a5"
  have s4: "playExportStep r ?c ?late 4 u = [(u + 1000 + stop_late ?late, RecorderStop)]" for u
    by (subst playExportStep.simps) (simp add: len)
  have s3: "playExportStep r ?c ?late 3 u =
      [(u, Show 3), (u + 100 + settle_late ?late 3, ReplayCanvas 3),
       (u + 100 + settle_late ?late 3, SourceStart 3 b3),
       (u + 100 + settle_late ?late 3 + duration b3 + ended_late ?late 3, SourceEnded 3)]
      @ playExportStep r ?c ?late 4
          (u + 100 + settle_late ?late 3 + duration b3 + ended_late ?late 3
             + 1000 + pause_late ?late 3)" for u
    by (subst playExportStep.simps) (simp add: len at cache Let_def)
  have s2: "playExportStep r ?c ?late 2 u =
      [(u, Show 2), (u + 100 + settle_late ?late 2, ReplayCanvas 2),
       (u + 100 + settle_late ?late 2, SourceStart 2 b2),
       (u + 100 + settle_late ?late 2 + duration b2 + ended_late ?late 2, SourceEnded 2)]
      @ playExportStep r ?c ?late 3
          (u + 100 + settle_late ?late 2 + duration b2 + ended_late ?late 2
             + 1000 + pause_late ?late 2)" for u
    by (subst playExportStep.simps) (simp add: len at cache Let_def)
  have s1: "playExportStep r ?c ?late (Suc 0) u =
      [(u, Show 1), (u + 100 + settle_late ?late 1, ReplayCanvas 1)]
      @ playExportStep r ?c ?late 2 (u + 100 + settle_late ?late 1 + 5000 + hold_late ?late 1)"
    for u
    by (subst playExportStep.simps) (simp add: len at cache Let_def numeral_2_eq_2)
  have s0: "playExportStep r ?c ?late 0 u =
      [(u, Show 0), (u + 100 + settle_late ?late 0, ReplayCanvas 0),
       (u + 100 + settle_late ?late 0, SourceStart 0 b0),
       (u + 100 + settle_late ?late 0 + duration b0 + ended_late ?late 0, SourceEnded 0)]
      @ playExportStep r ?c ?late (Suc 0)
          (u + 100 + settle_late ?late 0 + duration b0 + ended_late ?late 0
             + 1000 + pause_late ?late 0)" for u
    by (subst playExportStep.simps) (simp add: len at cache Let_def)
  have src: "sources (fst (handleExportVideo decode service env r t a))
      = [(0, b0), (2, b2), (3, b3)]"
    by (simp add: H s0 s1 s2 s3 s4)
  have hold: "\<exists>u. (u, ReplayCanvas 1) \<in> set (fst (handleExportVideo decode service env r t a))
           \<and> (u + 5000 + hold_late (delays env) 1, Show 2)
               \<in> set (fst (handleExportVideo decode service env r t a))"
    by (simp add: H s0 s1 s2 s3 s4)
  have stop: "snd (last (fst (handleExportVideo decode service env r t a))) = RecorderStop"
    by (simp add: H s0 s1 s2 s3 s4)
  from hold src stop calls flags show ?thesis by (simp add: H)
qed

theorem export_survives_rate_limit_witness:
  "steps (view (opened four_steps)) = four_steps \<and> length four_steps = 4
   \<and> sample_service (narration (four_steps ! 1)) = Inl rate_limited
   \<and> is_rate_limit rate_limited
   \<and> speech_calls (snd (handleExportVideo sample_decode sample_service sample_env
         (view (opened four_steps)) 0 (opened four_steps)))
       = [''Boil water. Heat a pot.'', ''Add eggs. Lower them in.'', ''Wait. Ten minutes.'',
          ''Cool. Use cold water.'']
   \<and> isExporting (view (snd (handleExportVideo sample_decode sample_service sample_env
         (view (opened four_steps)) 0 (opened four_steps))))
   \<and> quotaExceeded (view (snd (handleExportVideo sample_decode sample_service sample_env
         (view (opened four_steps)) 0 (opened four_steps))))
   \<and> sources (fst (handleExportVideo sample_decode sample_service sample_env
         (view (opened four_steps)) 0 (opened four_steps)))
       = [(0, \<lparr>duration = 3000, pcm = ''AAAA''\<rparr>), (2, \<lparr>duration = 3000, pcm = ''AAAA''\<rparr>),
          (3, \<lparr>duration = 3000, pcm = ''AAAA''\<rparr>)]
   \<and> (\<exists>u. (u, ReplayCanvas 1) \<in> set (fst (handleExportVideo sample_decode sample_service
               sample_env (view (opened four_steps)) 0 (opened four_steps)))
         \<and> (u + 5000, Show 2) \<in> set (fst (handleExportVideo sample_decode sample_service
               sample_env (view (opened four_steps)) 0 (opened four_steps))))
   \<and> snd (last (fst (handleExportVideo sample_decode sample_service sample_env
         (view (opened four_steps)) 0 (opened four_steps)))) = RecorderStop"
proof -
  let ?r = "view (opened four_steps)" and ?a = "opened four_steps"
  let ?s0 = "four_steps ! 0" and ?s1 = "four_steps ! 1"
  let ?s2 = "four_steps ! 2" and ?s3 = "four_steps ! 3"
  let ?b = "\<lparr>duration = 3000, pcm = ''AAAA''\<rparr>"
  have sts: "steps ?r = [?s0, ?s1, ?s2, ?s3]"
    by (simp add: opened_def four_steps_def)
  have r: "\<not> quotaExceeded ?r" "\<not> isExporting ?r"
    by (simp_all add: opened_def)
  have keys: "distinct (map getAudioKey [?s0, ?s1, ?s2, ?s3])"
    by (simp add: four_steps_def getAudioKey_def trim_def is_space_def)
  have fresh: "\<forall>s \<in> set [?s0, ?s1, ?s2, ?s3]. audioCacheRef ?a (getAudioKey s) = None
                  \<and> audioLoadingPromisesRef ?a (getAudioKey s) = None"
    by (simp add: opened_def)
  have env: "audio_graph sample_env" "canvas_found sample_env" "recorder_supported sample_env"
    by (simp_all add: sample_env_def)
  have limited: "sample_service (narration ?s1) = Inl rate_limited" "is_rate_limit rate_limited"
    by (simp_all add: sample_service_def narration_def four_steps_def is_rate_limit_def
        rate_limited_def)
  have ok0: "generateSpeech (sample_service (narration ?s0)) = Inr ''AAAA''"
    and ok2: "generateSpeech (sample_service (narration ?s2)) = Inr ''AAAA''"
    and ok3: "generateSpeech (sample_service (narration ?s3)) = Inr ''AAAA''"
    by (simp_all add: generateSpeech_def sample_service_def narration_def four_steps_def)
  have dec: "sample_decode ''AAAA'' = Inr ?b"
    by (simp add: sample_decode_def)
  have texts: "narration (four_steps ! 0) = ''Boil water. Heat a pot.''"
    "narration (four_steps ! Suc 0) = ''Add eggs. Lower them in.''"
    "narration (four_steps ! 2) = ''Wait. Ten minutes.''"
    "narration (four_steps ! 3) = ''Cool. Use cold water.''"
    by (simp_all add: narration_def four_steps_def)
  have misc: "speech_calls ?a = []" "hold_late (delays sample_env) i = 0"
    "steps ?r = four_steps" "length four_steps = 4" for i
    by (simp_all add: opened_def sample_env_def on_time_def four_steps_def)
  from export_survives_rate_limit
    [where decode = sample_decode and t = 0,
     OF sts r keys fresh env limited ok0 dec ok2 dec ok3 dec]
  show ?thesis
    using limited misc(3,4) by (simp add: texts misc(1,2))
qed

end
